theory Spec2Isabelle
  imports Main "HOL-Library.Product_Lexorder"
begin

section \<open>Data model of \<^verbatim>\<open>sudoku-solver.py\<close>\<close>

text \<open>
  A board is a list of rows of Python integers; the unassigned sentinel is \<open>-1\<close>.
  Cell coordinates are the values of \<^verbatim>\<open>range(self.n)\<close> and of the sub-grid ranges, hence
  natural numbers. The parameters \<open>n\<close>, \<open>m\<close>, \<open>k\<close> are taken as natural numbers (the
  interface of the engine gives positive integers).

  A Python exception (IndexError on a read outside the board, ZeroDivisionError,
  KeyError, ValueError, TypeError on a missing initial board) aborts the whole
  call, since the program catches none: every function that can raise returns an
  option, and \<open>None\<close> is "an exception was raised".

  Python sets are HOL sets. Where the source iterates over a set to build a list
  (the arcs of the arc-consistency worklist, the values tried by a search driver),
  the model iterates in ascending order.
\<close>

type_synonym board = "int list list"
type_synonym cell = "nat \<times> nat"

record SudokuCSP =
  csp_n :: nat
  csp_m :: nat
  csp_k :: nat
  domain :: "int set"
  reducedDomains :: "int set list list option"
  checks :: nat
  initialBoard :: "board option"

text \<open>\<^verbatim>\<open>__init__\<close>: an empty or absent initial board is stored as \<^verbatim>\<open>None\<close>.\<close>

definition SudokuCSP_init :: "nat \<Rightarrow> nat \<Rightarrow> nat \<Rightarrow> board option \<Rightarrow> SudokuCSP" where
  "SudokuCSP_init n m k ib =
     \<lparr>csp_n = n, csp_m = m, csp_k = k, domain = {1 .. int n}, reducedDomains = None,
      checks = 0,
      initialBoard = (case ib of None \<Rightarrow> None | Some b \<Rightarrow> if b = [] then None else Some b)\<rparr>"

definition getDomain :: "SudokuCSP \<Rightarrow> int set" where
  "getDomain e = domain e"

definition getChecks :: "SudokuCSP \<Rightarrow> nat" where
  "getChecks e = checks e"

text \<open>\<^verbatim>\<open>board[i][j]\<close>: IndexError outside the grid.\<close>

definition cell_at :: "'a list list \<Rightarrow> nat \<Rightarrow> nat \<Rightarrow> 'a option" where
  "cell_at b i j = (if i < length b \<and> j < length (b ! i) then Some (b ! i ! j) else None)"

text \<open>\<^verbatim>\<open>board[i][j] = v\<close>: IndexError outside the grid.\<close>

definition set_cell :: "'a list list \<Rightarrow> nat \<Rightarrow> nat \<Rightarrow> 'a \<Rightarrow> 'a list list option" where
  "set_cell b i j v =
     (if i < length b \<and> j < length (b ! i) then Some (b[i := (b ! i)[j := v]]) else None)"

section \<open>Constraint graph\<close>

text \<open>The cells visited by the first loop of \<^verbatim>\<open>getNeighbours\<close>, in the order visited.\<close>

definition rowColCells :: "nat \<Rightarrow> nat \<Rightarrow> nat \<Rightarrow> cell list" where
  "rowColCells n i j = concat (map (\<lambda>x. [(i, x), (x, j)]) [0..<n])"

text \<open>The cells of the \<open>m \<times> k\<close> block with origin \<open>(oi, oj)\<close>, row by row.\<close>

definition blockCells :: "nat \<Rightarrow> nat \<Rightarrow> nat \<Rightarrow> nat \<Rightarrow> cell list" where
  "blockCells m k oi oj = concat (map (\<lambda>si. map (\<lambda>sj. (si, sj)) [oj..<oj + k]) [oi..<oi + m])"

text \<open>
  \<^verbatim>\<open>getNeighbours\<close>. The integer divisions raise ZeroDivisionError when \<open>m\<close> or \<open>k\<close> is 0;
  \<^verbatim>\<open>neighbours.remove((i,j))\<close> raises KeyError when the cell is absent.
\<close>

definition getNeighbours :: "SudokuCSP \<Rightarrow> nat \<Rightarrow> nat \<Rightarrow> cell set option" where
  "getNeighbours e i j =
     (if csp_m e = 0 \<or> csp_k e = 0 then None
      else
        let sb_i = i div csp_m e * csp_m e;
            sb_j = j div csp_k e * csp_k e;
            neighbours = set (rowColCells (csp_n e) i j)
                         \<union> set (blockCells (csp_m e) (csp_k e) sb_i sb_j)
        in if (i, j) \<in> neighbours then Some (neighbours - {(i, j)}) else None)"

text \<open>
  The loops of \<^verbatim>\<open>getUnassignedNeighbours\<close>: each visited cell is read from the board
  and added when it holds \<open>-1\<close>.
\<close>

fun addUnassigned :: "board \<Rightarrow> cell list \<Rightarrow> cell set \<Rightarrow> cell set option" where
  "addUnassigned b [] s = Some s"
| "addUnassigned b (c # cs) s =
     (case cell_at b (fst c) (snd c) of
        None \<Rightarrow> None
      | Some v \<Rightarrow> addUnassigned b cs (if v = - 1 then insert c s else s))"

definition getUnassignedNeighbours :: "SudokuCSP \<Rightarrow> board \<Rightarrow> nat \<Rightarrow> nat \<Rightarrow> cell set option" where
  "getUnassignedNeighbours e b i j =
     (case addUnassigned b (rowColCells (csp_n e) i j) {} of
        None \<Rightarrow> None
      | Some s1 \<Rightarrow>
          if csp_m e = 0 \<or> csp_k e = 0 then None
          else
            let sb_i = i div csp_m e * csp_m e;
                sb_j = j div csp_k e * csp_k e
            in (case addUnassigned b (blockCells (csp_m e) (csp_k e) sb_i sb_j) s1 of
                  None \<Rightarrow> None
                | Some s2 \<Rightarrow> Some (s2 - {(i, j)})))"

section \<open>Consistency checking\<close>

text \<open>
  The loop \<^verbatim>\<open>for si, sj in ...: appeared.add(board[si][sj])\<close>: the set of the values of
  the given cells, or an IndexError when one of them is outside the board.
\<close>

definition valuesAt :: "board \<Rightarrow> cell set \<Rightarrow> int set option" where
  "valuesAt b cs =
     (if \<forall>c \<in> cs. cell_at b (fst c) (snd c) \<noteq> None
      then Some ((\<lambda>c. b ! fst c ! snd c) ` cs) else None)"

definition check :: "SudokuCSP \<Rightarrow> board \<Rightarrow> nat \<Rightarrow> nat \<Rightarrow> bool \<Rightarrow> (bool \<times> SudokuCSP) option" where
  "check e b i j incrCheckCount =
     (let e1 = (if incrCheckCount then e\<lparr>checks := checks e + 1\<rparr> else e)
      in case getNeighbours e1 i j of
           None \<Rightarrow> None
         | Some nb \<Rightarrow>
             (case valuesAt b nb of
                None \<Rightarrow> None
              | Some appeared \<Rightarrow>
                  (case cell_at b i j of
                     None \<Rightarrow> None
                   | Some v \<Rightarrow> Some (v \<notin> appeared, e1))))"

text \<open>
  One duplicate scan of \<^verbatim>\<open>checkAll\<close> over the digits read in order (\<open>None\<close> marks a read
  outside the board): \<open>Some False\<close> at the first digit already seen.
\<close>

fun scanDigits :: "int set \<Rightarrow> int option list \<Rightarrow> bool option" where
  "scanDigits appeared [] = Some True"
| "scanDigits appeared (None # ds) = None"
| "scanDigits appeared (Some d # ds) =
     (if d \<in> appeared then Some False else scanDigits (insert d appeared) ds)"

text \<open>The first loop of \<^verbatim>\<open>checkAll\<close>: row \<open>i\<close>, then column \<open>i\<close>.\<close>

fun rowColLoop :: "nat \<Rightarrow> board \<Rightarrow> nat list \<Rightarrow> bool option" where
  "rowColLoop n b [] = Some True"
| "rowColLoop n b (i # is) =
     (if length b \<le> i then None
      else case scanDigits {} (map Some (b ! i)) of
             None \<Rightarrow> None
           | Some False \<Rightarrow> Some False
           | Some True \<Rightarrow>
               (case scanDigits {} (map (\<lambda>j. cell_at b j i) [0..<n]) of
                  None \<Rightarrow> None
                | Some False \<Rightarrow> Some False
                | Some True \<Rightarrow> rowColLoop n b is))"

text \<open>\<^verbatim>\<open>range(0, n, s)\<close>: ValueError for a zero step.\<close>

definition range_step :: "nat \<Rightarrow> nat \<Rightarrow> nat list option" where
  "range_step n s = (if s = 0 then None else Some (map (\<lambda>q. q * s) [0..<(n + s - 1) div s]))"

fun subgridInner :: "SudokuCSP \<Rightarrow> board \<Rightarrow> nat \<Rightarrow> nat list \<Rightarrow> bool option" where
  "subgridInner e b i [] = Some True"
| "subgridInner e b i (j # js) =
     (case scanDigits {} (map (\<lambda>c. cell_at b (fst c) (snd c)) (blockCells (csp_m e) (csp_k e) i j)) of
        None \<Rightarrow> None
      | Some False \<Rightarrow> Some False
      | Some True \<Rightarrow> subgridInner e b i js)"

fun subgridOuter :: "SudokuCSP \<Rightarrow> board \<Rightarrow> nat list \<Rightarrow> bool option" where
  "subgridOuter e b [] = Some True"
| "subgridOuter e b (i # is) =
     (case range_step (csp_n e) (csp_k e) of
        None \<Rightarrow> None
      | Some js \<Rightarrow>
          (case subgridInner e b i js of
             None \<Rightarrow> None
           | Some False \<Rightarrow> Some False
           | Some True \<Rightarrow> subgridOuter e b is))"

definition checkAll :: "SudokuCSP \<Rightarrow> board \<Rightarrow> (bool \<times> SudokuCSP) option" where
  "checkAll e b =
     (let e1 = e\<lparr>checks := checks e + 1\<rparr>
      in case rowColLoop (csp_n e1) b [0..<csp_n e1] of
           None \<Rightarrow> None
         | Some False \<Rightarrow> Some (False, e1)
         | Some True \<Rightarrow>
             (case range_step (csp_n e1) (csp_m e1) of
                None \<Rightarrow> None
              | Some is \<Rightarrow>
                  (case subgridOuter e1 b is of
                     None \<Rightarrow> None
                   | Some r \<Rightarrow> Some (r, e1))))"

section \<open>Well-formed inputs\<close>

text \<open>Puzzle parameters accepted by the parser: \<open>n % m = 0\<close> and \<open>n % k = 0\<close>.\<close>

definition validParams :: "SudokuCSP \<Rightarrow> bool" where
  "validParams e \<longleftrightarrow>
     0 < csp_m e \<and> 0 < csp_k e \<and> csp_n e mod csp_m e = 0 \<and> csp_n e mod csp_k e = 0"

text \<open>An \<open>n \<times> n\<close> grid.\<close>

definition isGrid :: "nat \<Rightarrow> 'a list list \<Rightarrow> bool" where
  "isGrid n b \<longleftrightarrow> length b = n \<and> (\<forall>row \<in> set b. length row = n)"

text \<open>
  The neighbour relation in closed form: same row, same column or same block, the cell
  itself excluded.
\<close>

definition neighbourSet :: "SudokuCSP \<Rightarrow> nat \<Rightarrow> nat \<Rightarrow> cell set" where
  "neighbourSet e i j =
     ({i} \<times> {..<csp_n e} \<union> {..<csp_n e} \<times> {j}
      \<union> {i div csp_m e * csp_m e ..< i div csp_m e * csp_m e + csp_m e}
        \<times> {j div csp_k e * csp_k e ..< j div csp_k e * csp_k e + csp_k e}) - {(i, j)}"

text \<open>The 4 \<open>\<times>\<close> 4 engine with 2 \<open>\<times>\<close> 2 blocks used in the examples.\<close>

definition engine4 :: SudokuCSP where
  "engine4 = SudokuCSP_init 4 2 2 None"

text \<open>
  The properties a complete board is tested for, stated on the grid: no value twice in
  a row, a column, a sub-grid; and each of them a permutation of \<open>{1..n}\<close>.
\<close>

definition cellValues :: "board \<Rightarrow> cell list \<Rightarrow> int list" where
  "cellValues b cs = map (\<lambda>c. b ! fst c ! snd c) cs"

definition rowsDistinct :: "nat \<Rightarrow> board \<Rightarrow> bool" where
  "rowsDistinct n b \<longleftrightarrow> (\<forall>i \<in> {..<n}. distinct (b ! i))"

definition colsDistinct :: "nat \<Rightarrow> board \<Rightarrow> bool" where
  "colsDistinct n b \<longleftrightarrow> (\<forall>j \<in> {..<n}. distinct (map (\<lambda>i. b ! i ! j) [0..<n]))"

definition blocksDistinct :: "nat \<Rightarrow> nat \<Rightarrow> nat \<Rightarrow> board \<Rightarrow> bool" where
  "blocksDistinct n m k b \<longleftrightarrow>
     (\<forall>p \<in> {..<n div m}. \<forall>q \<in> {..<n div k}. distinct (cellValues b (blockCells m k (p * m) (q * k))))"

definition noDuplicates :: "SudokuCSP \<Rightarrow> board \<Rightarrow> bool" where
  "noDuplicates e b \<longleftrightarrow>
     rowsDistinct (csp_n e) b \<and> colsDistinct (csp_n e) b
     \<and> blocksDistinct (csp_n e) (csp_m e) (csp_k e) b"

definition isPermutation :: "nat \<Rightarrow> int list \<Rightarrow> bool" where
  "isPermutation n xs \<longleftrightarrow> distinct xs \<and> set xs = {1 .. int n}"

definition rowsPermutations :: "nat \<Rightarrow> board \<Rightarrow> bool" where
  "rowsPermutations n b \<longleftrightarrow> (\<forall>i \<in> {..<n}. isPermutation n (b ! i))"

definition colsPermutations :: "nat \<Rightarrow> board \<Rightarrow> bool" where
  "colsPermutations n b \<longleftrightarrow> (\<forall>j \<in> {..<n}. isPermutation n (map (\<lambda>i. b ! i ! j) [0..<n]))"

definition blocksPermutations :: "nat \<Rightarrow> nat \<Rightarrow> nat \<Rightarrow> board \<Rightarrow> bool" where
  "blocksPermutations n m k b \<longleftrightarrow>
     (\<forall>p \<in> {..<n div m}. \<forall>q \<in> {..<n div k}.
        isPermutation n (cellValues b (blockCells m k (p * m) (q * k))))"

definition allPermutations :: "SudokuCSP \<Rightarrow> board \<Rightarrow> bool" where
  "allPermutations e b \<longleftrightarrow>
     rowsPermutations (csp_n e) b \<and> colsPermutations (csp_n e) b
     \<and> blocksPermutations (csp_n e) (csp_m e) (csp_k e) b"

definition cellsInDomain :: "nat \<Rightarrow> board \<Rightarrow> bool" where
  "cellsInDomain n b \<longleftrightarrow> (\<forall>row \<in> set b. \<forall>v \<in> set row. 1 \<le> v \<and> v \<le> int n)"

text \<open>The 2 \<open>\<times>\<close> 2 engine with 1 \<open>\<times>\<close> 1 blocks used in the examples.\<close>

definition engine2 :: SudokuCSP where
  "engine2 = SudokuCSP_init 2 1 1 None"

(*DEFS_END*)

section \<open>The constraint graph in closed form\<close>

lemma set_rowColCells: "set (rowColCells n i j) = {i} \<times> {..<n} \<union> {..<n} \<times> {j}"
  by (auto simp: rowColCells_def)

lemma set_blockCells: "set (blockCells m k oi oj) = {oi..<oi + m} \<times> {oj..<oj + k}"
  by (auto simp: blockCells_def)

lemma block_origin_le: "0 < (m::nat) \<Longrightarrow> i div m * m \<le> i \<and> i < i div m * m + m"
  by (metis (no_types) add.commute div_mult_mod_eq le_add1 mod_less_divisor
      nat_add_left_cancel_less mult.commute)

lemma block_within:
  assumes m: "0 < (m::nat)" and d: "n mod m = 0" and i: "i < n"
  shows "i div m * m + m \<le> n"
proof -
  from d obtain q where q: "n = q * m" by (metis mod_eq_0_iff_dvd dvd_def mult.commute)
  have "i div m < q" using i q m by (simp add: less_mult_imp_div_less)
  then have "(i div m + 1) * m \<le> q * m" by (intro mult_le_mono1) simp
  then show ?thesis using q by simp
qed

lemma in_block_iff:
  "0 < (m::nat) \<Longrightarrow> a \<in> {i div m * m ..< i div m * m + m} \<longleftrightarrow> a div m = i div m"
proof
  assume m: "0 < m" and "a \<in> {i div m * m ..< i div m * m + m}"
  then have "i div m * m \<le> a" "a < (i div m + 1) * m" by auto
  then show "a div m = i div m"
    using m by (metis Suc_eq_plus1 div_nat_eqI mult.commute)
next
  assume m: "0 < m" and "a div m = i div m"
  then show "a \<in> {i div m * m ..< i div m * m + m}"
    using block_origin_le[OF m, of a] by simp
qed

lemma validParams_pos: "validParams e \<Longrightarrow> 0 < csp_m e \<and> 0 < csp_k e"
  by (simp add: validParams_def)

lemma validParams_checks [simp]: "validParams (e\<lparr>checks := c\<rparr>) = validParams e"
  by (simp add: validParams_def)

lemma neighbourSet_checks [simp]: "neighbourSet (e\<lparr>checks := c\<rparr>) i j = neighbourSet e i j"
  by (simp add: neighbourSet_def)

lemma getNeighbours_eq:
  "0 < csp_m e \<Longrightarrow> 0 < csp_k e \<Longrightarrow> getNeighbours e i j = Some (neighbourSet e i j)"
  using block_origin_le[of "csp_m e" i] block_origin_le[of "csp_k e" j]
  by (simp add: getNeighbours_def Let_def set_rowColCells set_blockCells neighbourSet_def)

lemma getNeighbours_None: "csp_m e = 0 \<or> csp_k e = 0 \<Longrightarrow> getNeighbours e i j = None"
  by (auto simp: getNeighbours_def)

lemma neighbourSet_mem:
  "0 < csp_m e \<Longrightarrow> 0 < csp_k e \<Longrightarrow>
   (a, b) \<in> neighbourSet e i j \<longleftrightarrow>
     (a, b) \<noteq> (i, j) \<and>
     (a = i \<and> b < csp_n e \<or> a < csp_n e \<and> b = j
      \<or> a div csp_m e = i div csp_m e \<and> b div csp_k e = j div csp_k e)"
  unfolding neighbourSet_def
  using in_block_iff[of "csp_m e" a i] in_block_iff[of "csp_k e" b j]
  by (simp add: mem_Times_iff) blast

lemma neighbourSet_sym:
  assumes "0 < csp_m e" "0 < csp_k e" "a < csp_n e" "b < csp_n e" "i < csp_n e" "j < csp_n e"
  shows "(a, b) \<in> neighbourSet e i j \<longleftrightarrow> (i, j) \<in> neighbourSet e a b"
  using assms by (auto simp: neighbourSet_mem)

lemma neighbourSet_split:
  assumes v: "validParams e" and i: "i < csp_n e" and j: "j < csp_n e"
  shows "neighbourSet e i j =
     {i} \<times> ({..<csp_n e} - {j}) \<union> ({..<csp_n e} - {i}) \<times> {j}
     \<union> ({i div csp_m e * csp_m e ..< i div csp_m e * csp_m e + csp_m e} - {i})
       \<times> ({j div csp_k e * csp_k e ..< j div csp_k e * csp_k e + csp_k e} - {j})"
proof -
  have m: "0 < csp_m e" and k: "0 < csp_k e" using v by (auto simp: validParams_def)
  have bi: "i div csp_m e * csp_m e + csp_m e \<le> csp_n e"
    using v i by (intro block_within) (auto simp: validParams_def)
  have bj: "j div csp_k e * csp_k e + csp_k e \<le> csp_n e"
    using v j by (intro block_within) (auto simp: validParams_def)
  show ?thesis
    unfolding neighbourSet_def
    using bi bj block_origin_le[OF m, of i] block_origin_le[OF k, of j]
    by auto
qed

lemma neighbourSet_in_grid:
  assumes "validParams e" "i < csp_n e" "j < csp_n e" "c \<in> neighbourSet e i j"
  shows "fst c < csp_n e \<and> snd c < csp_n e"
proof -
  have m: "0 < csp_m e" and k: "0 < csp_k e" using assms(1) by (auto simp: validParams_def)
  have bi: "i div csp_m e * csp_m e + csp_m e \<le> csp_n e"
    using assms by (intro block_within) (auto simp: validParams_def)
  have bj: "j div csp_k e * csp_k e + csp_k e \<le> csp_n e"
    using assms by (intro block_within) (auto simp: validParams_def)
  show ?thesis using assms(2-4) bi bj unfolding neighbourSet_def by auto
qed

lemma card_neighbourSet:
  assumes v: "validParams e" and i: "i < csp_n e" and j: "j < csp_n e"
  shows "card (neighbourSet e i j) = 2 * (csp_n e - 1) + (csp_m e - 1) * (csp_k e - 1)"
proof -
  let ?n = "csp_n e" and ?m = "csp_m e" and ?k = "csp_k e"
  let ?R = "{i} \<times> ({..<?n} - {j})"
  let ?C = "({..<?n} - {i}) \<times> {j}"
  let ?B = "({i div ?m * ?m ..< i div ?m * ?m + ?m} - {i})
            \<times> ({j div ?k * ?k ..< j div ?k * ?k + ?k} - {j})"
  have m: "0 < ?m" and k: "0 < ?k" using v by (auto simp: validParams_def)
  have cR: "card ?R = ?n - 1" using j by (simp add: card_cartesian_product)
  have cC: "card ?C = ?n - 1" using i by (simp add: card_cartesian_product)
  have cB: "card ?B = (?m - 1) * (?k - 1)"
    using block_origin_le[OF m, of i] block_origin_le[OF k, of j]
    by (simp add: card_cartesian_product)
  have fin: "finite ?R" "finite ?C" "finite ?B" by auto
  have d1: "?R \<inter> ?C = {}" by auto
  have d2: "(?R \<union> ?C) \<inter> ?B = {}" by auto
  have "card (neighbourSet e i j) = card ((?R \<union> ?C) \<union> ?B)"
    using neighbourSet_split[OF v i j] by simp
  also have "\<dots> = card (?R \<union> ?C) + card ?B"
    using fin d2 by (intro card_Un_disjoint) auto
  also have "card (?R \<union> ?C) = card ?R + card ?C"
    using fin d1 by (intro card_Un_disjoint) auto
  finally show ?thesis using cR cC cB by simp
qed

lemma engine4_fields [simp]:
  "csp_n engine4 = 4" "csp_m engine4 = 2" "csp_k engine4 = 2" "checks engine4 = 0"
  "domain engine4 = {1 .. 4}" "reducedDomains engine4 = None" "initialBoard engine4 = None"
  by (simp_all add: engine4_def SudokuCSP_init_def)

lemma engine4_valid: "validParams engine4"
  by (simp add: validParams_def)

text \<open>
  Claim C4. For valid parameters and a cell \<open>(i, j)\<close> of the grid, \<open>getNeighbours\<close>
  returns a set that does not contain \<open>(i, j)\<close>, has exactly
  \<open>2 (n - 1) + (m - 1) (k - 1)\<close> elements (the function takes no board), and is
  symmetric: for every cell \<open>(a, b)\<close> of the grid, \<open>(a, b)\<close> is a neighbour of \<open>(i, j)\<close>
  iff \<open>(i, j)\<close> is a neighbour of \<open>(a, b)\<close>.
\<close>

theorem getNeighbours_irreflexive_symmetric_card:
  assumes v: "validParams e" and i: "i < csp_n e" and j: "j < csp_n e"
  shows "\<exists>nb. getNeighbours e i j = Some nb \<and> (i, j) \<notin> nb \<and>
              card nb = 2 * (csp_n e - 1) + (csp_m e - 1) * (csp_k e - 1) \<and>
              (\<forall>a b. a < csp_n e \<longrightarrow> b < csp_n e \<longrightarrow>
                 (\<exists>nb'. getNeighbours e a b = Some nb' \<and>
                        ((a, b) \<in> nb \<longleftrightarrow> (i, j) \<in> nb')))"
proof -
  have m: "0 < csp_m e" and k: "0 < csp_k e" using v by (auto simp: validParams_def)
  have g: "getNeighbours e a b = Some (neighbourSet e a b)" for a b
    using m k by (rule getNeighbours_eq)
  have "(i, j) \<notin> neighbourSet e i j" by (simp add: neighbourSet_def)
  moreover have "(a, b) \<in> neighbourSet e i j \<longleftrightarrow> (i, j) \<in> neighbourSet e a b"
    if "a < csp_n e" "b < csp_n e" for a b
    using neighbourSet_sym[OF m k that i j] .
  ultimately show ?thesis
    using g card_neighbourSet[OF v i j] by simp
qed

theorem getNeighbours_irreflexive_symmetric_card_witness:
  "validParams engine4 \<and> (1::nat) < csp_n engine4 \<and> (2::nat) < csp_n engine4 \<and>
   (\<exists>nb. getNeighbours engine4 1 2 = Some nb \<and> (1, 2) \<notin> nb \<and> card nb = 7 \<and>
      (\<exists>nb'. getNeighbours engine4 0 3 = Some nb' \<and> ((0, 3) \<in> nb \<longleftrightarrow> (1, 2) \<in> nb')))"
proof -
  have h: "(1::nat) < csp_n engine4" "(2::nat) < csp_n engine4" by simp_all
  from getNeighbours_irreflexive_symmetric_card[OF engine4_valid h]
  obtain nb where nb: "getNeighbours engine4 1 2 = Some nb" "(1, 2) \<notin> nb"
      "card nb = 2 * (csp_n engine4 - 1) + (csp_m engine4 - 1) * (csp_k engine4 - 1)"
      "\<forall>a b. a < csp_n engine4 \<longrightarrow> b < csp_n engine4 \<longrightarrow>
         (\<exists>nb'. getNeighbours engine4 a b = Some nb' \<and> ((a, b) \<in> nb \<longleftrightarrow> (1, 2) \<in> nb'))"
    by blast
  from nb(4) have "\<exists>nb'. getNeighbours engine4 0 3 = Some nb' \<and> ((0, 3) \<in> nb \<longleftrightarrow> (1, 2) \<in> nb')"
    by simp
  with nb(1-3) engine4_valid show ?thesis by simp
qed

section \<open>The single-cell check\<close>

lemma cell_at_grid: "isGrid n b \<Longrightarrow> i < n \<Longrightarrow> j < n \<Longrightarrow> cell_at b i j = Some (b ! i ! j)"
  by (simp add: isGrid_def cell_at_def)

lemma valuesAt_grid:
  assumes "isGrid n b" "\<forall>c \<in> cs. fst c < n \<and> snd c < n"
  shows "valuesAt b cs = Some ((\<lambda>c. b ! fst c ! snd c) ` cs)"
  using assms by (simp add: valuesAt_def cell_at_grid)

lemma check_eq:
  assumes v: "validParams e" and g: "isGrid (csp_n e) b" and i: "i < csp_n e" and j: "j < csp_n e"
  shows "check e b i j incr =
           Some (b ! i ! j \<notin> (\<lambda>c. b ! fst c ! snd c) ` neighbourSet e i j,
                 if incr then e\<lparr>checks := checks e + 1\<rparr> else e)"
proof -
  have nb: "\<forall>c \<in> neighbourSet e i j. fst c < csp_n e \<and> snd c < csp_n e"
    using neighbourSet_in_grid[OF v i j] by blast
  show ?thesis
    using validParams_pos[OF v] valuesAt_grid[OF g nb] cell_at_grid[OF g i j]
    by (simp add: check_def getNeighbours_eq)
qed

text \<open>
  Claim C10. On a cell that holds the sentinel \<open>-1\<close>, \<open>check\<close> treats the sentinel as a
  value: it returns true exactly when no neighbour holds \<open>-1\<close>, hence false as soon as
  one neighbour is unassigned too.
\<close>

theorem check_unassigned_cell:
  assumes "validParams e" "isGrid (csp_n e) b" "i < csp_n e" "j < csp_n e" "b ! i ! j = - 1"
  shows "\<exists>nb. getNeighbours e i j = Some nb \<and>
              check e b i j incr =
                Some ((\<forall>c \<in> nb. b ! fst c ! snd c \<noteq> - 1),
                      if incr then e\<lparr>checks := checks e + 1\<rparr> else e)"
proof -
  have "getNeighbours e i j = Some (neighbourSet e i j)"
    using validParams_pos[OF assms(1)] by (simp add: getNeighbours_eq)
  moreover have "(b ! i ! j \<notin> (\<lambda>c. b ! fst c ! snd c) ` neighbourSet e i j)
                   = (\<forall>c \<in> neighbourSet e i j. b ! fst c ! snd c \<noteq> - 1)"
    using assms(5) by (auto simp: image_iff)
  ultimately show ?thesis using check_eq[OF assms(1-4), of incr] by simp
qed

theorem check_unassigned_cell_witness:
  "validParams engine4 \<and>
   isGrid (csp_n engine4) [[1,2,3,4],[3,4,-1,2],[2,1,-1,3],[4,3,2,1::int]] \<and>
   [[1,2,3,4],[3,4,-1,2],[2,1,-1,3],[4,3,2,1::int]] ! 1 ! 2 = - 1 \<and>
   (\<exists>e'. check engine4 [[1,2,3,4],[3,4,-1,2],[2,1,-1,3],[4,3,2,1]] 1 2 True = Some (False, e')) \<and>
   (\<exists>e'. check engine4 [[1,2,3,4],[3,4,-1,2],[2,1,4,3],[4,3,2,1]] 1 2 True = Some (True, e'))"
proof -
  let ?b1 = "[[1,2,3,4],[3,4,-1,2],[2,1,-1,3],[4,3,2,1::int]]"
  let ?b2 = "[[1,2,3,4],[3,4,-1,2],[2,1,4,3],[4,3,2,1::int]]"
  have g1: "isGrid (csp_n engine4) ?b1" and g2: "isGrid (csp_n engine4) ?b2"
    by (simp_all add: isGrid_def)
  have h: "(1::nat) < csp_n engine4" "(2::nat) < csp_n engine4" by simp_all
  have c1: "?b1 ! 1 ! 2 = - 1" and c2: "?b2 ! 1 ! 2 = - 1" by simp_all
  have nbs: "getNeighbours engine4 1 2 = Some {(1,0),(1,1),(1,3),(0,2),(2,2),(3,2),(0,3)}"
    by (simp add: getNeighbours_eq neighbourSet_def) code_simp
  have r1: "\<exists>e'. check engine4 ?b1 1 2 True = Some (False, e')"
    using check_unassigned_cell[OF engine4_valid g1 h c1, of True] nbs by simp
  have r2: "\<exists>e'. check engine4 ?b2 1 2 True = Some (True, e')"
    using check_unassigned_cell[OF engine4_valid g2 h c2, of True] nbs by simp
  show ?thesis using engine4_valid g1 c1 r1 r2 by blast
qed

section \<open>The full-board check\<close>

lemma lessThan_2: "{..<(2::nat)} = {0, 1}" by auto

lemma lessThan_4: "{..<(4::nat)} = {0, 1, 2, 3}" by auto

lemma upt_0_4: "[0..<4] = [0, 1, 2, 3]" by code_simp

lemma upt_0_2: "[0..<2] = [0, 1]" by code_simp

lemma int_1_2: "{1 .. 2::int} = {1, 2}" by auto

lemma int_1_4: "{1 .. 4::int} = {1, 2, 3, 4}" by auto

lemmas small_ranges = lessThan_2 lessThan_4 upt_0_4 upt_0_2 int_1_2 int_1_4

lemma scanDigits_Some: "scanDigits A (map Some ds) = Some (distinct ds \<and> set ds \<inter> A = {})"
  by (induction ds arbitrary: A) auto

lemma column_reads:
  assumes "isGrid n b" "i < n"
  shows "map (\<lambda>j. cell_at b j i) [0..<n] = map Some (map (\<lambda>j. b ! j ! i) [0..<n])"
  using assms by (simp add: cell_at_grid)

lemma rowColLoop_grid:
  assumes g: "isGrid n b"
  shows "set is \<subseteq> {..<n} \<Longrightarrow>
         rowColLoop n b is =
           Some (\<forall>i \<in> set is. distinct (b ! i) \<and> distinct (map (\<lambda>j. b ! j ! i) [0..<n]))"
proof (induction "is")
  case Nil
  then show ?case by simp
next
  case (Cons i "is")
  then have i: "i < n" and rest: "set is \<subseteq> {..<n}" by auto
  have len: "\<not> length b \<le> i" using g i by (simp add: isGrid_def)
  show ?case
  proof (cases "distinct (b ! i)")
    case True
    then show ?thesis
      using Cons.IH[OF rest] len
      by (cases "distinct (map (\<lambda>j. b ! j ! i) [0..<n])")
         (simp_all add: column_reads[OF g i] scanDigits_Some del: map_map)
  next
    case False
    then show ?thesis using len by (simp add: scanDigits_Some)
  qed
qed

lemma range_step_dvd:
  assumes "0 < s" "n mod s = 0"
  shows "range_step n s = Some (map (\<lambda>q. q * s) [0..<n div s])"
proof -
  from assms(2) obtain q where q: "n = q * s" by (metis mod_eq_0_iff_dvd dvd_def mult.commute)
  obtain r where r: "s = Suc r" using assms(1) by (cases s) auto
  have "s * q \<le> q * s + s - 1" "q * s + s - 1 < s * Suc q"
    using r by (simp_all add: algebra_simps)
  then have "(q * s + s - 1) div s = q" by (rule div_nat_eqI)
  then show ?thesis using assms(1) q by (simp add: range_step_def)
qed

lemma block_reads:
  assumes g: "isGrid n b" and i: "i + m \<le> n" and j: "j + k \<le> n"
  shows "map (\<lambda>c. cell_at b (fst c) (snd c)) (blockCells m k i j)
           = map Some (cellValues b (blockCells m k i j))"
proof -
  have "cell_at b (fst c) (snd c) = Some (b ! fst c ! snd c)" if "c \<in> set (blockCells m k i j)" for c
    using that i j by (intro cell_at_grid[OF g]) (auto simp: set_blockCells)
  then show ?thesis by (simp add: cellValues_def)
qed

lemma subgridInner_grid:
  assumes g: "isGrid (csp_n e) b" and i: "i + csp_m e \<le> csp_n e"
  shows "\<forall>j \<in> set js. j + csp_k e \<le> csp_n e \<Longrightarrow>
         subgridInner e b i js =
           Some (\<forall>j \<in> set js. distinct (cellValues b (blockCells (csp_m e) (csp_k e) i j)))"
proof (induction js)
  case Nil
  then show ?case by simp
next
  case (Cons j js)
  then have j: "j + csp_k e \<le> csp_n e" and rest: "\<forall>j \<in> set js. j + csp_k e \<le> csp_n e" by auto
  show ?case
    using Cons.IH[OF rest]
    by (cases "distinct (cellValues b (blockCells (csp_m e) (csp_k e) i j))")
       (simp_all add: block_reads[OF g i j] scanDigits_Some)
qed

lemma subgridOuter_grid:
  assumes g: "isGrid (csp_n e) b" and js: "range_step (csp_n e) (csp_k e) = Some js"
    and jsb: "\<forall>j \<in> set js. j + csp_k e \<le> csp_n e"
  shows "\<forall>i \<in> set is. i + csp_m e \<le> csp_n e \<Longrightarrow>
         subgridOuter e b is =
           Some (\<forall>i \<in> set is. \<forall>j \<in> set js.
                   distinct (cellValues b (blockCells (csp_m e) (csp_k e) i j)))"
proof (induction "is")
  case Nil
  then show ?case by simp
next
  case (Cons i "is")
  then have i: "i + csp_m e \<le> csp_n e" and rest: "\<forall>i \<in> set is. i + csp_m e \<le> csp_n e" by auto
  let ?P = "\<forall>j \<in> set js. distinct (cellValues b (blockCells (csp_m e) (csp_k e) i j))"
  have inner: "subgridInner e b i js = Some ?P" by (rule subgridInner_grid[OF g i jsb])
  show ?case
  proof (cases ?P)
    case True
    then have "subgridInner e b i js = Some True" using inner by simp
    then show ?thesis using Cons.IH[OF rest] js True by simp
  next
    case False
    then have "subgridInner e b i js = Some False" using inner by simp
    then show ?thesis using js False by simp
  qed
qed

lemma origin_within:
  assumes "0 < (s::nat)" "p < n div s"
  shows "p * s + s \<le> n"
proof -
  have "Suc p * s \<le> (n div s) * s" using assms(2) by (intro mult_le_mono1) simp
  also have "\<dots> \<le> n" by (simp add: div_times_less_eq_dividend)
  finally show ?thesis by simp
qed

lemma checkAll_eq:
  assumes v: "validParams e" and g: "isGrid (csp_n e) b"
  shows "checkAll e b = Some (noDuplicates e b, e\<lparr>checks := checks e + 1\<rparr>)"
proof -
  let ?n = "csp_n e" and ?m = "csp_m e" and ?k = "csp_k e"
  let ?e1 = "e\<lparr>checks := checks e + 1\<rparr>"
  have m: "0 < ?m" and k: "0 < ?k" and dm: "?n mod ?m = 0" and dk: "?n mod ?k = 0"
    using v by (auto simp: validParams_def)
  have sub: "set [0..<?n] \<subseteq> {..<?n}" by auto
  have "(\<forall>i \<in> set [0..<?n]. distinct (b ! i) \<and> distinct (map (\<lambda>j. b ! j ! i) [0..<?n]))
          = (rowsDistinct ?n b \<and> colsDistinct ?n b)"
    by (auto simp: rowsDistinct_def colsDistinct_def)
  then have rc: "rowColLoop ?n b [0..<?n] = Some (rowsDistinct ?n b \<and> colsDistinct ?n b)"
    using rowColLoop_grid[OF g sub] by simp
  have rm: "range_step ?n ?m = Some (map (\<lambda>q. q * ?m) [0..<?n div ?m])"
    using m dm by (rule range_step_dvd)
  have rk: "range_step (csp_n ?e1) (csp_k ?e1) = Some (map (\<lambda>q. q * ?k) [0..<?n div ?k])"
    using range_step_dvd[OF k dk] by simp
  have g1: "isGrid (csp_n ?e1) b" using g by simp
  have jb: "\<forall>j \<in> set (map (\<lambda>q. q * ?k) [0..<?n div ?k]). j + csp_k ?e1 \<le> csp_n ?e1"
    using origin_within[OF k] by auto
  have ib: "\<forall>i \<in> set (map (\<lambda>q. q * ?m) [0..<?n div ?m]). i + csp_m ?e1 \<le> csp_n ?e1"
    using origin_within[OF m] by auto
  have so: "subgridOuter ?e1 b (map (\<lambda>q. q * ?m) [0..<?n div ?m])
              = Some (blocksDistinct ?n ?m ?k b)"
    using subgridOuter_grid[OF g1 rk jb ib] by (simp add: blocksDistinct_def atLeast0LessThan)
  show ?thesis
    using rc rm so
    by (cases "rowsDistinct ?n b \<and> colsDistinct ?n b")
       (auto simp: checkAll_def Let_def noDuplicates_def)
qed


lemma isPermutation_iff_distinct:
  assumes "length xs = n" "set xs \<subseteq> {1 .. int n}"
  shows "isPermutation n xs \<longleftrightarrow> distinct xs"
proof
  assume "isPermutation n xs" then show "distinct xs" by (simp add: isPermutation_def)
next
  assume d: "distinct xs"
  then have "card (set xs) = card {1 .. int n}" using assms(1) by (simp add: distinct_card)
  then have "set xs = {1 .. int n}" using assms(2) by (intro card_subset_eq) auto
  with d show "isPermutation n xs" by (simp add: isPermutation_def)
qed

lemma grid_cell_in_domain:
  assumes "isGrid n b" "cellsInDomain n b" "i < n" "j < n"
  shows "b ! i ! j \<in> {1 .. int n}"
proof -
  have "b ! i \<in> set b" using assms(1,3) by (simp add: isGrid_def)
  moreover from this have "length (b ! i) = n" using assms(1) by (simp add: isGrid_def)
  ultimately show ?thesis using assms(2,4) by (auto simp: cellsInDomain_def)
qed

lemma rows_permutation_iff:
  assumes g: "isGrid n b" and d: "cellsInDomain n b"
  shows "rowsPermutations n b \<longleftrightarrow> rowsDistinct n b"
proof -
  have "isPermutation n (b ! i) \<longleftrightarrow> distinct (b ! i)" if "i < n" for i
  proof (rule isPermutation_iff_distinct)
    show "length (b ! i) = n" using g that by (simp add: isGrid_def)
    have "b ! i \<in> set b" using g that by (simp add: isGrid_def)
    then show "set (b ! i) \<subseteq> {1 .. int n}" using d by (auto simp: cellsInDomain_def)
  qed
  then show ?thesis by (simp add: rowsPermutations_def rowsDistinct_def)
qed

lemma cols_permutation_iff:
  assumes g: "isGrid n b" and d: "cellsInDomain n b"
  shows "colsPermutations n b \<longleftrightarrow> colsDistinct n b"
proof -
  have "isPermutation n (map (\<lambda>i. b ! i ! j) [0..<n]) \<longleftrightarrow> distinct (map (\<lambda>i. b ! i ! j) [0..<n])"
    if "j < n" for j
  proof (rule isPermutation_iff_distinct)
    show "length (map (\<lambda>i. b ! i ! j) [0..<n]) = n" by simp
    show "set (map (\<lambda>i. b ! i ! j) [0..<n]) \<subseteq> {1 .. int n}"
      using grid_cell_in_domain[OF g d _ that] by auto
  qed
  then show ?thesis by (simp add: colsPermutations_def colsDistinct_def)
qed

lemma length_blockCells: "length (blockCells m k oi oj) = m * k"
  by (simp add: blockCells_def length_concat comp_def sum_list_triv)

lemma blocks_permutation_iff:
  assumes g: "isGrid n b" and d: "cellsInDomain n b" and m: "0 < m" and k: "0 < k"
    and mk: "m * k = n"
  shows "blocksPermutations n m k b \<longleftrightarrow> blocksDistinct n m k b"
proof -
  have "isPermutation n (cellValues b (blockCells m k (p * m) (q * k)))
          \<longleftrightarrow> distinct (cellValues b (blockCells m k (p * m) (q * k)))"
    if p: "p < n div m" and q: "q < n div k" for p q
  proof (rule isPermutation_iff_distinct)
    show "length (cellValues b (blockCells m k (p * m) (q * k))) = n"
      using mk by (simp add: cellValues_def length_blockCells)
    have "fst c < n \<and> snd c < n" if "c \<in> set (blockCells m k (p * m) (q * k))" for c
      using that origin_within[OF m p] origin_within[OF k q] by (auto simp: set_blockCells)
    then show "set (cellValues b (blockCells m k (p * m) (q * k))) \<subseteq> {1 .. int n}"
      using grid_cell_in_domain[OF g d] by (auto simp: cellValues_def)
  qed
  then show ?thesis by (simp add: blocksPermutations_def blocksDistinct_def)
qed

lemma engine2_fields [simp]:
  "csp_n engine2 = 2" "csp_m engine2 = 1" "csp_k engine2 = 1" "checks engine2 = 0"
  "domain engine2 = {1 .. 2}" "reducedDomains engine2 = None" "initialBoard engine2 = None"
  by (simp_all add: engine2_def SudokuCSP_init_def)

lemma engine2_valid: "validParams engine2"
  by (simp add: validParams_def)

text \<open>
  Claim C1 (amended). On an \<open>n \<times> n\<close> board, for valid parameters, \<open>checkAll\<close> returns
  true iff no row, no column and no \<open>m \<times> k\<close> sub-grid holds a value twice (and counts one
  check). When the cell values lie in \<open>[1, n]\<close>, "no duplicate" is the same as "is a
  permutation of \<open>{1..n}\<close>" for the rows and for the columns, and for the sub-grids
  when \<open>m * k = n\<close>.
\<close>

theorem checkAll_no_duplicates:
  assumes v: "validParams e" and g: "isGrid (csp_n e) b"
  shows "checkAll e b = Some (noDuplicates e b, e\<lparr>checks := checks e + 1\<rparr>) \<and>
         (cellsInDomain (csp_n e) b \<longrightarrow>
            (rowsPermutations (csp_n e) b \<longleftrightarrow> rowsDistinct (csp_n e) b) \<and>
            (colsPermutations (csp_n e) b \<longleftrightarrow> colsDistinct (csp_n e) b) \<and>
            (csp_m e * csp_k e = csp_n e \<longrightarrow> (allPermutations e b \<longleftrightarrow> noDuplicates e b)))"
  using checkAll_eq[OF v g] rows_permutation_iff[OF g] cols_permutation_iff[OF g]
    blocks_permutation_iff[OF g _ _ _] validParams_pos[OF v]
  by (auto simp: allPermutations_def noDuplicates_def)

theorem checkAll_no_duplicates_witness:
  "validParams engine4 \<and>
   isGrid (csp_n engine4) [[1,2,3,4],[3,4,1,2],[2,1,4,3],[4,3,2,1::int]] \<and>
   cellsInDomain (csp_n engine4) [[1,2,3,4],[3,4,1,2],[2,1,4,3],[4,3,2,1]] \<and>
   csp_m engine4 * csp_k engine4 = csp_n engine4 \<and>
   checkAll engine4 [[1,2,3,4],[3,4,1,2],[2,1,4,3],[4,3,2,1]]
     = Some (True, engine4\<lparr>checks := 1\<rparr>) \<and>
   allPermutations engine4 [[1,2,3,4],[3,4,1,2],[2,1,4,3],[4,3,2,1]] \<and>
   checkAll engine4 [[1,2,3,4],[3,4,1,2],[2,1,4,3],[4,3,1,2]]
     = Some (False, engine4\<lparr>checks := 1\<rparr>)"
proof -
  let ?b = "[[1,2,3,4],[3,4,1,2],[2,1,4,3],[4,3,2,1::int]]"
  let ?c = "[[1,2,3,4],[3,4,1,2],[2,1,4,3],[4,3,1,2::int]]"
  have g: "isGrid (csp_n engine4) ?b" and gc: "isGrid (csp_n engine4) ?c"
    by (simp_all add: isGrid_def)
  have d: "cellsInDomain (csp_n engine4) ?b" by (simp add: cellsInDomain_def)
  have nd: "noDuplicates engine4 ?b"
    by (simp add: noDuplicates_def rowsDistinct_def colsDistinct_def blocksDistinct_def
        cellValues_def blockCells_def small_ranges)
  have ndc: "\<not> noDuplicates engine4 ?c"
    by (simp add: noDuplicates_def rowsDistinct_def colsDistinct_def blocksDistinct_def
        cellValues_def blockCells_def small_ranges)
  show ?thesis
    using checkAll_no_duplicates[OF engine4_valid g] checkAll_no_duplicates[OF engine4_valid gc]
      engine4_valid g d nd ndc
    by simp
qed

text \<open>
  Claim C1 as stated fails for sub-grids with fewer than \<open>n\<close> cells: with \<open>n = 2\<close>,
  \<open>m = k = 1\<close> the board \<open>[[1,2],[2,1]]\<close> passes \<open>checkAll\<close>, yet its 1 \<open>\<times>\<close> 1 sub-grids
  are no permutations of \<open>{1, 2}\<close>.
\<close>

theorem checkAll_permutation_counterexample:
  "validParams engine2 \<and> isGrid (csp_n engine2) [[1,2],[2,1::int]] \<and>
   cellsInDomain (csp_n engine2) [[1,2],[2,1]] \<and>
   checkAll engine2 [[1,2],[2,1]] = Some (True, engine2\<lparr>checks := 1\<rparr>) \<and>
   \<not> allPermutations engine2 [[1,2],[2,1]]"
proof -
  let ?b = "[[1,2],[2,1::int]]"
  have g: "isGrid (csp_n engine2) ?b" by (simp add: isGrid_def)
  have d: "cellsInDomain (csp_n engine2) ?b" by (simp add: cellsInDomain_def)
  have nd: "noDuplicates engine2 ?b"
    by (simp add: noDuplicates_def rowsDistinct_def colsDistinct_def blocksDistinct_def
        cellValues_def blockCells_def small_ranges)
  have np: "\<not> blocksPermutations 2 1 1 ?b"
    by code_simp
  show ?thesis
    using checkAll_eq[OF engine2_valid g] engine2_valid g d nd np
    by (simp add: allPermutations_def)
qed

end
